theory Spec2Isabelle
  imports Complex_Main
begin

section \<open>The notebook: search space, estimator and objective\<close>

text \<open>
  The source is the notebook \<^verbatim>\<open>03-Bayesian-Optimization-GBM-Manual.ipynb\<close>. It declares
  the search space \<^verbatim>\<open>param_grid\<close>, the estimator \<^verbatim>\<open>gbm\<close> and the decorated function
  \<^verbatim>\<open>objective\<close>, and hands them to the library routine \<^verbatim>\<open>gp_minimize\<close>.

  Hyperparameter values are Python ints, floats and strings. Floats are modelled as
  reals; the only arithmetic the notebook itself does on them is a mean and a negation.
\<close>

datatype pvalue = IntV int | RealV real | CatV string

datatype py_error = ValueError

text \<open>
  The three dimension constructors the notebook uses, each with its \<^verbatim>\<open>name=\<close> keyword.
  \<^verbatim>\<open>Real\<close> is written \<open>Real_dim\<close>, its name being taken by the real numbers.
\<close>

datatype dimension =
    Integer int int string
  | Real_dim real real string
  | Categorical "string list" string

fun dim_name :: "dimension \<Rightarrow> string" where
  "dim_name (Integer lo hi n) = n"
| "dim_name (Real_dim lo hi n) = n"
| "dim_name (Categorical cs n) = n"

definition param_grid :: "dimension list" where
  "param_grid =
     [Integer 10 120 ''n_estimators'',
      Real_dim (1 / 10000) (999 / 1000) ''min_samples_split'',
      Integer 1 5 ''max_depth'',
      Categorical [''log_loss'', ''exponential''] ''loss'']"

text \<open>
  Keyword arguments and the parameters of an estimator are Python dicts from names to
  values.
\<close>

type_synonym kwargs = "string \<rightharpoonup> pvalue"

type_synonym estimator = "string \<rightharpoonup> pvalue"

text \<open>
  \<^verbatim>\<open>GradientBoostingClassifier(random_state=0)\<close>: the constructor's keyword arguments
  override the defaults of the class. The table of defaults belongs to scikit-learn
  and is a parameter here.
\<close>

definition GradientBoostingClassifier :: "estimator \<Rightarrow> kwargs \<Rightarrow> estimator" where
  "GradientBoostingClassifier defaults kw = defaults ++ kw"

definition gbm :: "estimator \<Rightarrow> estimator" where
  "gbm defaults = GradientBoostingClassifier defaults [''random_state'' \<mapsto> IntV 0]"

text \<open>
  \<^verbatim>\<open>gbm.set_params(**params)\<close> overwrites the named parameters of the estimator in
  place and leaves the others as they are. The model returns the updated estimator.
\<close>

definition set_params :: "estimator \<Rightarrow> kwargs \<Rightarrow> estimator" where
  "set_params est params = est ++ params"

text \<open>
  \<^verbatim>\<open>np.mean\<close> of the array of fold scores. On an empty array numpy returns nan; here the
  quotient by zero is \<open>0\<close>. \<^verbatim>\<open>cross_val_score\<close> with \<^verbatim>\<open>cv=3\<close> returns three scores.
\<close>

definition np_mean :: "real list \<Rightarrow> real" where
  "np_mean xs = sum_list xs / real (length xs)"

text \<open>
  The body of \<^verbatim>\<open>objective(**params)\<close>. \<^verbatim>\<open>cross_val_score\<close> is scikit-learn's and is the
  parameter \<open>cvs\<close>: it receives the estimator, the training data \<open>D\<close> (the globals
  \<^verbatim>\<open>X_train\<close>, \<^verbatim>\<open>y_train\<close>, fixed by cell 4) and the number of folds, and, as the first
  argument, everything else a call could depend on (the process-wide random generator,
  the scheduling of the \<^verbatim>\<open>n_jobs=-4\<close> workers). The scoring is always \<^verbatim>\<open>'accuracy'\<close>.
  It returns the array of fold scores or raises, as it does with \<^verbatim>\<open>ValueError\<close> on
  hyperparameters the classifier refuses.

  The body has no \<^verbatim>\<open>try\<close>: an exception of \<^verbatim>\<open>cross_val_score\<close> leaves the objective
  as it is, and by then \<^verbatim>\<open>set_params\<close> has already changed the global \<^verbatim>\<open>gbm\<close>. The
  function returns the outcome of the call, an error or the value handed to the
  optimizer, and the mutated \<^verbatim>\<open>gbm\<close>.
\<close>

definition objective_body ::
  "('w \<Rightarrow> estimator \<Rightarrow> 'd \<Rightarrow> nat \<Rightarrow> py_error + real list) \<Rightarrow> 'w \<Rightarrow> 'd \<Rightarrow> estimator \<Rightarrow> kwargs
     \<Rightarrow> (py_error + real) \<times> estimator" where
  "objective_body cvs w D est params =
     (let est' = set_params est params
      in case cvs w est' D 3 of
           Inl e \<Rightarrow> (Inl e, est')
         | Inr scores \<Rightarrow> (let value = np_mean scores in (Inr (- value), est')))"

text \<open>
  The decorator \<^verbatim>\<open>@use_named_args(param_grid)\<close> "allows our objective function to receive
  the parameters as keyword arguments": the optimizer calls the decorated function
  with one list \<open>x\<close> of values, in the order of the dimensions, and the wrapper builds
  the dict \<^verbatim>\<open>{dim.name: value}\<close> (a later entry of the same name overriding an earlier
  one) after checking that the two lengths agree.
\<close>

definition use_named_args ::
  "dimension list \<Rightarrow> (kwargs \<Rightarrow> 'r) \<Rightarrow> pvalue list \<Rightarrow> py_error + 'r" where
  "use_named_args dims func x =
     (if length x \<noteq> length dims then Inl ValueError
      else Inr (func (Map.empty (map dim_name dims [\<mapsto>] x))))"

text \<open>
  The decorated \<^verbatim>\<open>objective\<close>, as the optimizer calls it. When the wrapper raises, the
  body has not run and \<^verbatim>\<open>gbm\<close> is as it was.
\<close>

definition objective ::
  "('w \<Rightarrow> estimator \<Rightarrow> 'd \<Rightarrow> nat \<Rightarrow> py_error + real list) \<Rightarrow> 'w \<Rightarrow> 'd \<Rightarrow> estimator
     \<Rightarrow> pvalue list \<Rightarrow> (py_error + real) \<times> estimator" where
  "objective cvs w D est x =
     (case use_named_args param_grid (objective_body cvs w D est) x of
        Inl e \<Rightarrow> (Inl e, est)
      | Inr r \<Rightarrow> r)"

text \<open>The classifier \<open>est\<close> once it has been configured with the setting \<open>x\<close>.\<close>

definition configured :: "estimator \<Rightarrow> pvalue list \<Rightarrow> estimator" where
  "configured est x = set_params est (Map.empty (map dim_name param_grid [\<mapsto>] x))"

text \<open>The outcome of a call of the objective: the error raised or the value returned.\<close>

definition objective_result ::
  "('w \<Rightarrow> estimator \<Rightarrow> 'd \<Rightarrow> nat \<Rightarrow> py_error + real list) \<Rightarrow> 'w \<Rightarrow> 'd \<Rightarrow> estimator
     \<Rightarrow> pvalue list \<Rightarrow> py_error + real" where
  "objective_result cvs w D est x = fst (objective cvs w D est x)"

text \<open>The value returned by a call of the objective; \<open>None\<close> when the call raises.\<close>

definition objective_value ::
  "('w \<Rightarrow> estimator \<Rightarrow> 'd \<Rightarrow> nat \<Rightarrow> py_error + real list) \<Rightarrow> 'w \<Rightarrow> 'd \<Rightarrow> estimator
     \<Rightarrow> pvalue list \<Rightarrow> real option" where
  "objective_value cvs w D est x =
     (case objective_result cvs w D est x of Inl e \<Rightarrow> None | Inr v \<Rightarrow> Some v)"

text \<open>The estimator left behind by a call, whether it returned or raised.\<close>

definition objective_state ::
  "('w \<Rightarrow> estimator \<Rightarrow> 'd \<Rightarrow> nat \<Rightarrow> py_error + real list) \<Rightarrow> 'w \<Rightarrow> 'd \<Rightarrow> estimator
     \<Rightarrow> pvalue list \<Rightarrow> estimator" where
  "objective_state cvs w D est x = snd (objective cvs w D est x)"

text \<open>
  A sequence of calls of the objective, as the optimizer makes them: each call comes
  with its own surroundings \<open>w\<close> and finds \<^verbatim>\<open>gbm\<close> as the previous call left it.
\<close>

fun objective_calls ::
  "('w \<Rightarrow> estimator \<Rightarrow> 'd \<Rightarrow> nat \<Rightarrow> py_error + real list) \<Rightarrow> 'd \<Rightarrow> estimator
     \<Rightarrow> ('w \<times> pvalue list) list \<Rightarrow> estimator" where
  "objective_calls cvs D est [] = est"
| "objective_calls cvs D est ((w, x) # calls) =
     objective_calls cvs D (objective_state cvs w D est x) calls"

text \<open>Membership of a value in a dimension: its type and its bounds or labels.\<close>

fun in_dimension :: "dimension \<Rightarrow> pvalue \<Rightarrow> bool" where
  "in_dimension (Integer lo hi n) (IntV i) = (lo \<le> i \<and> i \<le> hi)"
| "in_dimension (Real_dim lo hi n) (RealV r) = (lo \<le> r \<and> r \<le> hi)"
| "in_dimension (Categorical cs n) (CatV c) = (c \<in> set cs)"
| "in_dimension d v = False"

definition admissible :: "pvalue list \<Rightarrow> bool" where
  "admissible x = list_all2 in_dimension param_grid x"

text \<open>
  What the notebook relies on when it fixes \<^verbatim>\<open>random_state=0\<close>: the outcome of
  \<^verbatim>\<open>cross_val_score\<close> on an estimator whose \<^verbatim>\<open>random_state\<close> is an integer, the scores or
  the error, depends on the estimator, the data and the number of folds only.
\<close>

definition seeded_deterministic ::
  "('w \<Rightarrow> estimator \<Rightarrow> 'd \<Rightarrow> nat \<Rightarrow> py_error + real list) \<Rightarrow> bool" where
  "seeded_deterministic cvs =
     (\<forall>w w' est D k s. est ''random_state'' = Some (IntV s) \<longrightarrow> cvs w est D k = cvs w' est D k)"

text \<open>
  Stand-ins used to run the theorems on concrete inputs. The scoring routine gives a
  seeded estimator of depth \<open>d \<ge> 1\<close> the three fold scores \<open>d / 10\<close>, \<open>(d + 1) / 10\<close>
  and \<open>(d + 2) / 10\<close>, refuses a seeded estimator of any other depth, and gives an
  estimator without seed the surroundings \<open>w\<close> as the score of every fold. With it come
  two settings of the four hyperparameters.
\<close>

definition stub_cvs :: "real \<Rightarrow> estimator \<Rightarrow> unit \<Rightarrow> nat \<Rightarrow> py_error + real list" where
  "stub_cvs w est D k =
     (case est ''random_state'' of
        Some (IntV s) \<Rightarrow>
          (case est ''max_depth'' of
             Some (IntV d) \<Rightarrow>
               (if 1 \<le> d
                then Inr [real_of_int d / 10, (real_of_int d + 1) / 10, (real_of_int d + 2) / 10]
                else Inl ValueError)
           | _ \<Rightarrow> Inl ValueError)
      | _ \<Rightarrow> Inr (replicate k w))"

definition x1 :: "pvalue list" where
  "x1 = [IntV 50, RealV (1 / 2), IntV 3, CatV ''log_loss'']"

definition x2 :: "pvalue list" where
  "x2 = [IntV 118, RealV (3 / 4), IntV 5, CatV ''exponential'']"

section \<open>The optimizer's trace and its best value\<close>

text \<open>
  The notebook reads the outcome of the search from the result object of
  \<^verbatim>\<open>gp_minimize\<close> (\<^verbatim>\<open>gp_.fun\<close>, \<^verbatim>\<open>gp_.x\<close>) and draws its running minimum with
  \<^verbatim>\<open>plot_convergence\<close>. Both belong to scikit-optimize and are not among the sources;
  the definitions of this section follow section 3 of the specification.
\<close>

text \<open>
  Modelled from the spec: the Observation, "(Point, scalar value, evaluation order
  index)", of the optimizer's result object, which is not in the sources.
\<close>

record observation =
  obs_point :: "pvalue list"
  obs_value :: real
  obs_index :: nat

type_synonym trace = "observation list"

text \<open>
  Modelled from the spec: the Trace, "the ordered sequence of Observations for one
  run; append-only". The optimizer that owns it is not in the sources. An append
  gives the new Observation the next evaluation order index.
\<close>

definition append_observation :: "trace \<Rightarrow> pvalue list \<Rightarrow> real \<Rightarrow> trace" where
  "append_observation tr p v = tr @ [\<lparr>obs_point = p, obs_value = v, obs_index = length tr\<rparr>]"

fun trace_from :: "trace \<Rightarrow> (pvalue list \<times> real) list \<Rightarrow> trace" where
  "trace_from tr [] = tr"
| "trace_from tr ((p, v) # evals) = trace_from (append_observation tr p v) evals"

text \<open>
  Modelled from the spec: the Trace of a run whose evaluations, in order, were
  \<open>evals\<close>; the optimizer's loop that records them is not in the sources.
\<close>

definition trace_of :: "(pvalue list \<times> real) list \<Rightarrow> trace" where
  "trace_of evals = trace_from [] evals"

text \<open>
  Modelled from the spec: Best-so-far, "the Observation in Trace with minimum value;
  recomputed after every append; ties broken by earliest evaluation order index". The
  optimizer's own bookkeeping is not in the sources. \<open>better a b\<close> says that \<open>a\<close> wins
  against \<open>b\<close>; the scan keeps the winner so far.
\<close>

definition better :: "observation \<Rightarrow> observation \<Rightarrow> bool" where
  "better a b =
     (obs_value a < obs_value b \<or> (obs_value a = obs_value b \<and> obs_index a < obs_index b))"

fun scan_best :: "observation \<Rightarrow> trace \<Rightarrow> observation" where
  "scan_best b [] = b"
| "scan_best b (ob # obs) = scan_best (if better ob b then ob else b) obs"

fun best_so_far :: "trace \<Rightarrow> observation option" where
  "best_so_far [] = None"
| "best_so_far (ob # obs) = Some (scan_best ob obs)"

text \<open>Three evaluations, the last two of equal value, to run the theorem on.\<close>

definition three_evals :: "(pvalue list \<times> real) list" where
  "three_evals = [([IntV 1], 1 / 2), ([IntV 2], 1 / 5), ([IntV 3], 1 / 5)]"

section \<open>Expected improvement\<close>

text \<open>
  The notebook selects the acquisition function by name, \<^verbatim>\<open>acq_func='EI'\<close>; its code is
  scikit-optimize's and is not among the sources. The definitions of this section
  follow section 4.3 of the specification, over the reals.

  Neither integrals nor the error function are at hand, so the standard normal
  distribution function is built from the power series of a primitive of the Gaussian
  \<open>exp (- x\<^sup>2 / 2)\<close>: the series
  \<open>x - x\<^sup>3 / 6 + x\<^sup>5 / 40 - \<dots>\<close>, whose \<open>(2k+1)\<close>-th coefficient is
  \<open>(-1/2)\<^sup>k / (k! (2k+1))\<close>. The distribution function is the primitive that
  vanishes at \<open>-\<infinity>\<close>, that is, the primitive minus its infimum, divided by
  \<open>sqrt (2 \<pi>)\<close>. Lemmas \<open>DERIV_norm_cdf\<close>, \<open>norm_cdf_nonneg\<close> and
  \<open>norm_cdf_vanishes\<close> below show that it has the density as derivative, is not
  negative, and tends to \<open>0\<close> towards \<open>-\<infinity>\<close>, which determines it.
\<close>

text \<open>
  Modelled from the spec: the Gaussian \<open>exp (- x\<^sup>2 / 2)\<close> behind "the standard
  normal CDF/PDF", and the power series of its primitive that is \<open>0\<close> at \<open>0\<close>; the
  library routines are not in the sources.
\<close>

definition gauss :: "real \<Rightarrow> real" where
  "gauss x = exp (- (x\<^sup>2) / 2)"

definition gauss_coeff :: "nat \<Rightarrow> real" where
  "gauss_coeff n =
     (if odd n then (- 1 / 2) ^ (n div 2) / (fact (n div 2) * real n) else 0)"

definition gauss_prim :: "real \<Rightarrow> real" where
  "gauss_prim x = (\<Sum>n. gauss_coeff n * x ^ n)"

text \<open>
  Modelled from the spec: \<open>\<phi>\<close>, "the standard normal ... PDF"; the library
  routine that computes it is not in the sources.
\<close>

definition norm_pdf :: "real \<Rightarrow> real" where
  "norm_pdf x = gauss x / sqrt (2 * pi)"

text \<open>
  Modelled from the spec: \<open>\<Phi>\<close>, "the standard normal CDF"; the library routine that
  computes it is not in the sources.
\<close>

definition norm_cdf :: "real \<Rightarrow> real" where
  "norm_cdf x = (gauss_prim x - Inf (range gauss_prim)) / sqrt (2 * pi)"

text \<open>
  Modelled from the spec: the acquisition function, "EI(x) = (best - mean(x)) \<cdot>
  \<Phi>(z) + std(x) \<cdot> \<phi>(z), where z = (best - mean(x)) / std(x) when std(x) > 0, and
  EI(x) = 0 when std(x) == 0". Its code is scikit-optimize's and is not in the
  sources. The specification gives no value for a negative deviation: \<open>None\<close>.
\<close>

definition EI :: "real \<Rightarrow> real \<Rightarrow> real \<Rightarrow> real option" where
  "EI best mean std =
     (if 0 < std then
        (let z = (best - mean) / std
         in Some ((best - mean) * norm_cdf z + std * norm_pdf z))
      else if std = 0 then Some 0
      else None)"

section \<open>The objective negates the accuracy\<close>

lemma objective_eq:
  "length x = length param_grid \<Longrightarrow>
   objective cvs w D est x =
     (case cvs w (configured est x) D 3 of
        Inl e \<Rightarrow> Inl e
      | Inr scores \<Rightarrow> Inr (- np_mean scores),
      configured est x)"
  by (simp add: objective_def use_named_args_def objective_body_def configured_def Let_def
      split: sum.splits)

lemma objective_state_eq:
  "length x = length param_grid \<Longrightarrow> objective_state cvs w D est x = configured est x"
  by (simp add: objective_state_def objective_eq)

text \<open>The two ways in which a call raises: the wrapper's check and the scoring.\<close>

lemma objective_length_mismatch:
  "length x \<noteq> length param_grid \<Longrightarrow> objective cvs w D est x = (Inl ValueError, est)"
  by (simp add: objective_def use_named_args_def)

lemma objective_raises:
  "length x = length param_grid \<Longrightarrow> cvs w (configured est x) D 3 = Inl e \<Longrightarrow>
   objective cvs w D est x = (Inl e, configured est x)"
  by (simp add: objective_eq)

lemma np_mean_three: "np_mean [a1, a2, a3] = (a1 + a2 + a3) / 3"
  by (simp add: np_mean_def)

lemma objective_value_three:
  "length x = length param_grid \<Longrightarrow> cvs w (configured est x) D 3 = Inr [a1, a2, a3] \<Longrightarrow>
   objective_value cvs w D est x = Some (- ((a1 + a2 + a3) / 3))"
  by (simp add: objective_value_def objective_result_def objective_eq np_mean_three)

lemma stub_scores:
  "1 \<le> d \<Longrightarrow>
   stub_cvs w (configured (gbm Map.empty) [a, b, IntV d, c]) () k
     = Inr [real_of_int d / 10, (real_of_int d + 1) / 10, (real_of_int d + 2) / 10]"
  by (simp add: stub_cvs_def configured_def set_params_def gbm_def
      GradientBoostingClassifier_def param_grid_def)

lemma length_x1: "length x1 = length param_grid"
  by (simp add: x1_def param_grid_def)

lemma length_x2: "length x2 = length param_grid"
  by (simp add: x2_def param_grid_def)

text \<open>
  C1. For every setting of the four hyperparameters, the decorated objective returns
  the negation of the mean 3-fold cross-validation accuracy of the classifier
  configured with that setting: when the three folds score \<open>a1\<close>, \<open>a2\<close> and \<open>a3\<close>, the
  value returned is \<open>- (a1 + a2 + a3) / 3\<close>. Hence of two settings the one with the
  smaller returned value is the one with the greater mean accuracy: minimizing the
  returned value maximizes the accuracy. (Where the cross-validation raises there is
  no accuracy, and the objective raises too: \<open>objective_raises\<close>.)
\<close>

theorem objective_negates_accuracy:
  assumes "length x = length param_grid"
      and "length y = length param_grid"
      and "cvs w (configured est x) D 3 = Inr [a1, a2, a3]"
      and "cvs w (configured est y) D 3 = Inr [b1, b2, b3]"
  shows "\<exists>u v. objective_value cvs w D est x = Some u \<and> u = - ((a1 + a2 + a3) / 3)
             \<and> objective_value cvs w D est y = Some v \<and> v = - ((b1 + b2 + b3) / 3)
             \<and> (u \<le> v \<longleftrightarrow> (b1 + b2 + b3) / 3 \<le> (a1 + a2 + a3) / 3)"
proof -
  have "objective_value cvs w D est x = Some (- ((a1 + a2 + a3) / 3))"
    using assms(1) assms(3) by (rule objective_value_three)
  moreover have "objective_value cvs w D est y = Some (- ((b1 + b2 + b3) / 3))"
    using assms(2) assms(4) by (rule objective_value_three)
  ultimately show ?thesis by simp
qed

theorem objective_negates_accuracy_witness:
  "length x1 = length param_grid \<and> length x2 = length param_grid
   \<and> stub_cvs 0 (configured (gbm Map.empty) x1) () 3 = Inr [3 / 10, 4 / 10, 5 / 10]
   \<and> stub_cvs 0 (configured (gbm Map.empty) x2) () 3 = Inr [5 / 10, 6 / 10, 7 / 10]
   \<and> objective_value stub_cvs 0 () (gbm Map.empty) x1 = Some (- (2 / 5))
   \<and> objective_value stub_cvs 0 () (gbm Map.empty) x2 = Some (- (3 / 5))"
proof -
  have s1: "stub_cvs 0 (configured (gbm Map.empty) x1) () 3 = Inr [3 / 10, 4 / 10, 5 / 10]"
    by (simp add: x1_def stub_scores)
  have s2: "stub_cvs 0 (configured (gbm Map.empty) x2) () 3 = Inr [5 / 10, 6 / 10, 7 / 10]"
    by (simp add: x2_def stub_scores)
  show ?thesis
    using objective_negates_accuracy
        [where cvs = stub_cvs and w = 0 and D = "()" and est = "gbm Map.empty",
          OF length_x1 length_x2 s1 s2]
      length_x1 length_x2 s1 s2
    by simp
qed

section \<open>The objective is a function of the hyperparameters\<close>

lemma dom_named:
  "length x = length param_grid \<Longrightarrow>
   dom (Map.empty (map dim_name param_grid [\<mapsto>] x)) = set (map dim_name param_grid)"
  by (simp add: dom_map_upds)

lemma map_add_absorb: "dom m1 \<subseteq> dom m2 \<Longrightarrow> (e ++ m1) ++ m2 = e ++ m2"
  by (fastforce simp: map_add_def fun_eq_iff domIff subset_iff split: option.splits)

text \<open>A call overwrites all four hyperparameters, so nothing of an earlier call is left.\<close>

lemma configured_twice:
  assumes "length x = length param_grid" "length y = length param_grid"
  shows "configured (configured est y) x = configured est x"
proof -
  have "dom (Map.empty (map dim_name param_grid [\<mapsto>] y))
          \<subseteq> dom (Map.empty (map dim_name param_grid [\<mapsto>] x))"
    using assms by (simp add: dom_named)
  then show ?thesis
    unfolding configured_def set_params_def by (rule map_add_absorb)
qed

lemma objective_calls_configured:
  assumes "length x = length param_grid"
      and "\<forall>c\<in>set calls. length (snd c) = length param_grid"
  shows "configured (objective_calls cvs D est calls) x = configured est x"
  using assms(2)
proof (induction calls arbitrary: est)
  case Nil
  then show ?case by simp
next
  case (Cons c calls)
  obtain w y where c: "c = (w, y)" by (cases c)
  from Cons.prems c have ly: "length y = length param_grid" by simp
  from Cons.prems have rest: "\<forall>c\<in>set calls. length (snd c) = length param_grid" by simp
  show ?case
    using Cons.IH [OF rest] assms(1) ly
    by (simp add: c objective_state_eq configured_twice)
qed

text \<open>No dimension of \<open>param_grid\<close> is called \<^verbatim>\<open>random_state\<close>: the seed stays.\<close>

lemma configured_random_state:
  "length x = length param_grid \<Longrightarrow> configured est x ''random_state'' = est ''random_state''"
  by (simp add: configured_def set_params_def map_add_def dom_named domIff param_grid_def
      split: option.splits)

lemma gbm_random_state: "gbm defaults ''random_state'' = Some (IntV 0)"
  by (simp add: gbm_def GradientBoostingClassifier_def)

lemma stub_seeded: "seeded_deterministic stub_cvs"
  by (simp add: seeded_deterministic_def stub_cvs_def)

lemma admissible_x1: "admissible x1"
  by (simp add: admissible_def x1_def param_grid_def)

lemma admissible_x2: "admissible x2"
  by (simp add: admissible_def x2_def param_grid_def)

text \<open>
  C10. The objective is a deterministic function of its hyperparameter arguments.
  Let the scoring routine be deterministic on seeded estimators, and let the optimizer
  have called the objective any number of times, on admissible settings and in any
  surroundings, since \<^verbatim>\<open>gbm\<close> was created with \<^verbatim>\<open>random_state=0\<close>. Then a call on an
  admissible setting \<open>x\<close> has the outcome a first call on \<open>x\<close> would have had: the
  estimator handed to \<^verbatim>\<open>cross_val_score\<close> is the same, seed included, and so are the
  data and \<^verbatim>\<open>cv=3\<close>. Where the cross-validation of that estimator returns its scores,
  both calls return, and they return the same value.
\<close>

theorem objective_deterministic:
  assumes "seeded_deterministic cvs"
      and "admissible x"
      and "\<forall>c\<in>set calls. admissible (snd c)"
  shows "objective_result cvs w D (objective_calls cvs D (gbm defaults) calls) x
           = objective_result cvs w' D (gbm defaults) x
       \<and> (\<forall>scores. cvs w' (configured (gbm defaults) x) D 3 = Inr scores \<longrightarrow>
            (\<exists>v. objective_value cvs w D (objective_calls cvs D (gbm defaults) calls) x = Some v
                \<and> objective_value cvs w' D (gbm defaults) x = Some v))"
proof -
  have lx: "length x = length param_grid"
    using assms(2) by (simp add: admissible_def list_all2_lengthD)
  have lc: "\<forall>c\<in>set calls. length (snd c) = length param_grid"
    using assms(3) by (auto simp: admissible_def dest!: bspec dest: list_all2_lengthD)
  let ?e = "configured (gbm defaults) x"
  have same: "configured (objective_calls cvs D (gbm defaults) calls) x = ?e"
    by (rule objective_calls_configured [OF lx lc])
  have "?e ''random_state'' = Some (IntV 0)"
    by (simp add: configured_random_state [OF lx] gbm_random_state)
  with assms(1) have cv: "cvs w ?e D 3 = cvs w' ?e D 3"
    unfolding seeded_deterministic_def by blast
  have res: "objective_result cvs w D (objective_calls cvs D (gbm defaults) calls) x
               = objective_result cvs w' D (gbm defaults) x"
    by (simp add: objective_result_def objective_eq [OF lx] same cv)
  have "\<exists>v. objective_value cvs w D (objective_calls cvs D (gbm defaults) calls) x = Some v
           \<and> objective_value cvs w' D (gbm defaults) x = Some v"
    if "cvs w' ?e D 3 = Inr scores" for scores
    using that res by (simp add: objective_value_def objective_result_def objective_eq [OF lx])
  with res show ?thesis by blast
qed

theorem objective_deterministic_witness:
  "seeded_deterministic stub_cvs \<and> admissible x1 \<and> admissible x2
   \<and> objective_value stub_cvs 7 () (objective_calls stub_cvs () (gbm Map.empty) [(1, x2)]) x1
       = Some (- (2 / 5))
   \<and> objective_value stub_cvs 0 () (gbm Map.empty) x1 = Some (- (2 / 5))"
proof -
  have calls: "\<forall>c\<in>set [(1::real, x2)]. admissible (snd c)"
    by (simp add: admissible_x2)
  have s1: "stub_cvs 0 (configured (gbm Map.empty) x1) () 3 = Inr [3 / 10, 4 / 10, 5 / 10]"
    by (simp add: x1_def stub_scores)
  have v: "objective_value stub_cvs 0 () (gbm Map.empty) x1 = Some (- (2 / 5))"
    using objective_value_three
        [where cvs = stub_cvs and w = 0 and D = "()" and est = "gbm Map.empty",
          OF length_x1 s1]
    by simp
  show ?thesis
    using objective_deterministic [OF stub_seeded admissible_x1 calls, of 7 "()" Map.empty 0]
      stub_seeded admissible_x1 admissible_x2 v s1
    by auto
qed

section \<open>The best value never gets worse\<close>

lemma scan_best_mem: "scan_best b obs \<in> set (b # obs)"
  by (induction obs arbitrary: b) (auto split: if_splits)

lemma not_better_trans: "\<not> better b a \<Longrightarrow> \<not> better c b \<Longrightarrow> \<not> better c a"
  by (auto simp: better_def)

lemma scan_best_start: "\<not> better b (scan_best b obs)"
proof (induction obs arbitrary: b)
  case Nil
  show ?case by (simp add: better_def)
next
  case (Cons ob obs)
  let ?b' = "if better ob b then ob else b"
  have "\<not> better b ?b'" by (auto simp: better_def)
  with Cons.IH [of ?b'] show ?case
    using not_better_trans [of ?b' "scan_best ?b' obs" b] by simp
qed

lemma scan_best_least: "ob \<in> set (b # obs) \<Longrightarrow> \<not> better ob (scan_best b obs)"
proof (induction obs arbitrary: b)
  case Nil
  then show ?case by (simp add: better_def)
next
  case (Cons x obs)
  let ?b' = "if better x b then x else b"
  show ?case
  proof (cases "ob \<in> set obs")
    case True
    then show ?thesis using Cons.IH [of ?b'] by simp
  next
    case False
    with Cons.prems have "ob = b \<or> ob = x" by auto
    then have "\<not> better ob ?b'" by (auto simp: better_def)
    with scan_best_start [of ?b' obs] show ?thesis
      using not_better_trans [of ?b' "scan_best ?b' obs" ob] by simp
  qed
qed

lemma best_so_far_Some:
  "tr \<noteq> [] \<Longrightarrow> \<exists>b. best_so_far tr = Some b \<and> b \<in> set tr \<and> (\<forall>ob\<in>set tr. \<not> better ob b)"
proof (cases tr)
  case Nil
  assume "tr \<noteq> []" with Nil show ?thesis by simp
next
  case (Cons x xs)
  show ?thesis
    using scan_best_mem [of x xs] scan_best_least [of _ x xs] by (simp add: Cons del: set_simps) 
qed

lemma trace_from_append: "trace_from tr (es @ fs) = trace_from (trace_from tr es) fs"
  by (induction tr es rule: trace_from.induct) simp_all

lemma trace_from_prefix: "\<exists>obs. trace_from tr es = tr @ obs \<and> length obs = length es"
proof (induction tr es rule: trace_from.induct)
  case (1 tr)
  show ?case by simp
next
  case (2 tr p v evals)
  then show ?case by (auto simp: append_observation_def)
qed

lemma trace_from_index:
  "\<forall>k<length tr. obs_index (tr ! k) = k \<Longrightarrow>
   k < length (trace_from tr es) \<Longrightarrow> obs_index (trace_from tr es ! k) = k"
proof (induction tr es rule: trace_from.induct)
  case (1 tr)
  then show ?case by simp
next
  case (2 tr p v evals)
  have "\<forall>k<length (append_observation tr p v). obs_index (append_observation tr p v ! k) = k"
    using "2.prems"(1) by (auto simp: append_observation_def nth_append less_Suc_eq)
  with 2 show ?case by simp
qed

lemma length_trace_of: "length (trace_of es) = length es"
  using trace_from_prefix [of "[]" es] by (auto simp: trace_of_def)

lemma trace_of_index: "k < length es \<Longrightarrow> obs_index (trace_of es ! k) = k"
  using trace_from_index [of "[]" k es] by (simp add: trace_of_def length_trace_of [unfolded trace_of_def])

lemma trace_of_take: "take i (trace_of es) = trace_of (take i es)"
proof -
  have "trace_of es = trace_from (trace_of (take i es)) (drop i es)"
    using trace_from_append [of "[]" "take i es" "drop i es"] by (simp add: trace_of_def)
  moreover obtain obs where
    "trace_from (trace_of (take i es)) (drop i es) = trace_of (take i es) @ obs"
    and "length obs = length (drop i es)"
    using trace_from_prefix by blast
  ultimately have eq: "trace_of es = trace_of (take i es) @ obs"
    and len: "length obs = length es - i" by simp_all
  show ?thesis
  proof (cases "i \<le> length es")
    case True
    then show ?thesis by (simp add: eq length_trace_of)
  next
    case False
    then show ?thesis by (simp add: length_trace_of)
  qed
qed

text \<open>
  C5. Over the Trace of a run, the best value so far does not increase with the
  number of evaluations: for \<open>0 < i \<le> j\<close> the best Observation among the first \<open>j\<close>
  has a value at most that of the best among the first \<open>i\<close>. After each append the
  best Observation is one of the Trace, of minimum value, and among those of minimum
  value the one evaluated first. (The best of no observation at all does not exist:
  \<open>best_so_far [] = None\<close>.)
\<close>

theorem best_so_far_monotone:
  assumes "0 < i" and "i \<le> j" and "j \<le> length evals"
  shows "\<exists>bi bj. best_so_far (trace_of (take i evals)) = Some bi
              \<and> best_so_far (trace_of (take j evals)) = Some bj
              \<and> obs_value bj \<le> obs_value bi
              \<and> obs_index bj < j
              \<and> trace_of evals ! obs_index bj = bj
              \<and> (\<forall>k<j. obs_value bj \<le> obs_value (trace_of evals ! k)
                       \<and> (obs_value (trace_of evals ! k) = obs_value bj \<longrightarrow> obs_index bj \<le> k))"
proof -
  let ?tr = "trace_of evals"
  let ?ti = "take i ?tr" and ?tj = "take j ?tr"
  have li: "length ?ti = i" and lj: "length ?tj = j"
    using assms by (simp_all add: length_trace_of)
  then have "?ti \<noteq> []" "?tj \<noteq> []" using assms by auto
  then obtain bi bj where
    bi: "best_so_far ?ti = Some bi" "bi \<in> set ?ti" and
    bj: "best_so_far ?tj = Some bj" "bj \<in> set ?tj" "\<forall>ob\<in>set ?tj. \<not> better ob bj"
    using best_so_far_Some [of ?ti] best_so_far_Some [of ?tj] by blast
  have sub: "set ?ti \<subseteq> set ?tj"
    using assms(2) by (rule set_take_subset_set_take)
  with bi bj have "\<not> better bi bj" by blast
  then have le: "obs_value bj \<le> obs_value bi" by (auto simp: better_def)
  from bj(2) obtain m where m: "m < j" "?tj ! m = bj"
    using lj by (auto simp: in_set_conv_nth)
  then have at: "?tr ! m = bj" by simp
  have idx: "\<And>k. k < j \<Longrightarrow> obs_index (?tr ! k) = k"
    using assms(3) by (simp add: trace_of_index)
  from m at idx have im: "obs_index bj = m" by auto
  have least: "\<And>k. k < j \<Longrightarrow> obs_value bj \<le> obs_value (?tr ! k)
                 \<and> (obs_value (?tr ! k) = obs_value bj \<longrightarrow> obs_index bj \<le> k)"
  proof -
    fix k assume k: "k < j"
    then have "?tj ! k \<in> set ?tj" using lj by (intro nth_mem) simp
    with bj(3) have "\<not> better (?tj ! k) bj" by blast
    with k idx [OF k] show "obs_value bj \<le> obs_value (?tr ! k)
                 \<and> (obs_value (?tr ! k) = obs_value bj \<longrightarrow> obs_index bj \<le> k)"
      by (auto simp: better_def)
  qed
  show ?thesis
    using bi(1) bj(1) le m(1) at im least by (simp add: trace_of_take)
qed

theorem best_so_far_monotone_witness:
  "(0::nat) < 1 \<and> (1::nat) \<le> 3 \<and> 3 \<le> length three_evals
   \<and> best_so_far (trace_of (take 1 three_evals))
       = Some \<lparr>obs_point = [IntV 1], obs_value = 1 / 2, obs_index = 0\<rparr>
   \<and> best_so_far (trace_of (take 3 three_evals))
       = Some \<lparr>obs_point = [IntV 2], obs_value = 1 / 5, obs_index = 1\<rparr>"
  using best_so_far_monotone [of 1 3 three_evals]
  by (simp add: three_evals_def trace_of_def append_observation_def better_def)

section \<open>The standard normal distribution function\<close>

lemma diffs_gauss_coeff:
  "diffs gauss_coeff n = (if even n then (- 1 / 2) ^ (n div 2) / fact (n div 2) else 0)"
  by (simp add: diffs_def gauss_coeff_def)

lemma strict_mono_double: "strict_mono (\<lambda>k::nat. 2 * k)"
  by (simp add: strict_mono_def)

lemma strict_mono_double_Suc: "strict_mono (\<lambda>k::nat. Suc (2 * k))"
  by (simp add: strict_mono_def)

lemma gauss_series_sums:
  "(\<lambda>n. diffs gauss_coeff n * x ^ n) sums gauss x"
proof -
  let ?f = "\<lambda>n. diffs gauss_coeff n * x ^ n"
  have zero: "\<And>n. n \<notin> range (\<lambda>k::nat. 2 * k) \<Longrightarrow> ?f n = 0"
  proof -
    fix n :: nat assume "n \<notin> range (\<lambda>k::nat. 2 * k)"
    then have "odd n" by (metis evenE rangeI)
    then show "?f n = 0" by (simp add: diffs_gauss_coeff)
  qed
  have "(\<lambda>k. (- (x\<^sup>2) / 2) ^ k /\<^sub>R fact k) sums gauss x"
    unfolding gauss_def by (rule exp_converges)
  moreover have "(\<lambda>k. (- (x\<^sup>2) / 2) ^ k /\<^sub>R fact k) = (\<lambda>k. ?f (2 * k))"
  proof
    fix k
    have "(- (x\<^sup>2) / 2) ^ k = ((- 1 / 2) * x\<^sup>2) ^ k" by simp
    also have "\<dots> = (- 1 / 2) ^ k * (x\<^sup>2) ^ k" by (rule power_mult_distrib)
    also have "(x\<^sup>2) ^ k = x ^ (2 * k)" by (rule power_mult [symmetric])
    finally have "(- (x\<^sup>2) / 2) ^ k = (- 1 / 2) ^ k * x ^ (2 * k)" .
    moreover have "diffs gauss_coeff (2 * k) = (- 1 / 2) ^ k / fact k"
      by (simp add: diffs_gauss_coeff)
    ultimately show "(- (x\<^sup>2) / 2) ^ k /\<^sub>R fact k = ?f (2 * k)"
      by (simp only: real_scaleR_def) (simp add: field_simps)
  qed
  ultimately have "(\<lambda>k. ?f (2 * k)) sums gauss x" by simp
  moreover have "(\<lambda>k. ?f (2 * k)) sums gauss x \<longleftrightarrow> ?f sums gauss x"
    by (rule sums_mono_reindex [of "\<lambda>k. 2 * k" ?f])
       (rule strict_mono_double, rule zero, assumption)
  ultimately show ?thesis by blast
qed

lemma gauss_coeff_summable: "summable (\<lambda>n. gauss_coeff n * y ^ n)"
proof -
  let ?f = "\<lambda>n. gauss_coeff n * y ^ n"
  have zero: "\<And>n. n \<notin> range (\<lambda>k::nat. Suc (2 * k)) \<Longrightarrow> ?f n = 0"
  proof -
    fix n :: nat assume out: "n \<notin> range (\<lambda>k::nat. Suc (2 * k))"
    have "even n"
    proof (rule ccontr)
      assume "odd n"
      then obtain k where "n = 2 * k + 1" by (rule oddE)
      then have "n = Suc (2 * k)" by simp
      then have "n \<in> range (\<lambda>k::nat. Suc (2 * k))" by (rule range_eqI)
      with out show False by contradiction
    qed
    then show "?f n = 0" by (simp add: gauss_coeff_def)
  qed
  have bound: "\<And>k. norm (?f (Suc (2 * k))) \<le> \<bar>y\<bar> * ((y\<^sup>2 / 2) ^ k / fact k)"
  proof -
    fix k :: nat
    have c: "gauss_coeff (Suc (2 * k)) = (- 1 / 2) ^ k / (fact k * real (Suc (2 * k)))"
      by (simp add: gauss_coeff_def)
    have p: "\<bar>y ^ Suc (2 * k)\<bar> = \<bar>y\<bar> * (y\<^sup>2) ^ k"
      by (simp add: power_mult power_abs abs_mult)
    have h: "\<bar>(- 1 / 2 :: real) ^ k\<bar> = (1 / 2) ^ k"
      by (simp add: power_abs)
    have "norm (?f (Suc (2 * k)))
            = (1 / 2) ^ k / (fact k * real (Suc (2 * k))) * (\<bar>y\<bar> * (y\<^sup>2) ^ k)"
      unfolding c real_norm_def abs_mult abs_divide p h by simp
    also have "\<dots> = \<bar>y\<bar> * ((y\<^sup>2 / 2) ^ k / fact k) / real (Suc (2 * k))"
      by (simp add: power_divide power_one_over)
    also have "\<dots> \<le> \<bar>y\<bar> * ((y\<^sup>2 / 2) ^ k / fact k) / 1"
      by (rule divide_left_mono) (simp_all add: mult_nonneg_nonneg)
    finally show "norm (?f (Suc (2 * k))) \<le> \<bar>y\<bar> * ((y\<^sup>2 / 2) ^ k / fact k)"
      by simp
  qed
  have "summable (\<lambda>k. inverse (fact k) * (y\<^sup>2 / 2) ^ k)"
    by (rule summable_exp)
  moreover have "(\<lambda>k. inverse (fact k) * (y\<^sup>2 / 2) ^ k) = (\<lambda>k. (y\<^sup>2 / 2) ^ k / fact k)"
    by (rule ext) (simp only: divide_inverse mult.commute)
  ultimately have "summable (\<lambda>k. (y\<^sup>2 / 2) ^ k / fact k)"
    by simp
  then have "summable (\<lambda>k. \<bar>y\<bar> * ((y\<^sup>2 / 2) ^ k / fact k))"
    by (rule summable_mult)
  then have "summable (\<lambda>k. ?f (Suc (2 * k)))"
    by (rule summable_comparison_test' [where N = 0]) (use bound in simp)
  moreover have "summable (\<lambda>k. ?f (Suc (2 * k))) \<longleftrightarrow> summable ?f"
    by (rule summable_mono_reindex [of "\<lambda>k. Suc (2 * k)" ?f])
       (rule strict_mono_double_Suc, rule zero, assumption)
  ultimately show ?thesis by blast
qed

lemma DERIV_prim: "DERIV gauss_prim x :> gauss x"
proof -
  have "((\<lambda>x. \<Sum>n. gauss_coeff n * x ^ n) has_field_derivative
          (\<Sum>n. diffs gauss_coeff n * x ^ n)) (at x)"
    by (rule termdiffs_strong_converges_everywhere) (rule gauss_coeff_summable)
  moreover have "(\<Sum>n. diffs gauss_coeff n * x ^ n) = gauss x"
    using gauss_series_sums by (rule sums_unique [symmetric])
  ultimately show ?thesis
    by (simp add: gauss_prim_def [abs_def])
qed

lemma gauss_pos: "0 < gauss x"
  by (simp add: gauss_def)

lemma DERIV_gauss: "DERIV gauss x :> - x * gauss x"
  unfolding gauss_def [abs_def]
  by (auto intro!: derivative_eq_intros)

lemma gauss_prim_mono:
  assumes "a \<le> b"
  shows "gauss_prim a \<le> gauss_prim b"
proof (rule DERIV_nonneg_imp_nondecreasing [OF assms])
  fix x :: real
  show "\<exists>y. DERIV gauss_prim x :> y \<and> 0 \<le> y"
    using DERIV_prim [of x] gauss_pos [of x] by (intro exI [of _ "gauss x"]) simp
qed

text \<open>Below \<open>-1\<close> the primitive falls more slowly than the density.\<close>

lemma gauss_prim_lower:
  "gauss_prim (- 1) - gauss (- 1) \<le> gauss_prim a"
proof (cases "a \<le> - 1")
  case True
  have "gauss_prim (- 1) - gauss (- 1) \<le> gauss_prim a - gauss a"
  proof (rule DERIV_nonpos_imp_nonincreasing [OF True])
    fix x :: real assume "a \<le> x" "x \<le> - 1"
    have "DERIV (\<lambda>t. gauss_prim t - gauss t) x :> gauss x - (- x * gauss x)"
      by (rule DERIV_diff [OF DERIV_prim DERIV_gauss])
    moreover have "gauss x - (- x * gauss x) = (1 + x) * gauss x"
      by (simp add: algebra_simps)
    moreover have "(1 + x) * gauss x \<le> 0"
      using \<open>x \<le> - 1\<close> gauss_pos [of x] by (simp add: mult_le_0_iff)
    ultimately show "\<exists>y. DERIV (\<lambda>t. gauss_prim t - gauss t) x :> y \<and> y \<le> 0"
      by auto
  qed
  with gauss_pos [of a] show ?thesis by simp
next
  case False
  then have "gauss_prim (- 1) \<le> gauss_prim a" by (intro gauss_prim_mono) simp
  with gauss_pos [of "- 1"] show ?thesis by simp
qed

lemma bdd_below_gauss_prim: "bdd_below (range gauss_prim)"
  by (rule bdd_belowI [of _ "gauss_prim (- 1) - gauss (- 1)"]) (auto simp: gauss_prim_lower)

text \<open>The Mills bound, in the form the acquisition function needs.\<close>

lemma mills_step:
  assumes "a \<le> z" "z < 0"
  shows "gauss_prim z + gauss z / z \<le> gauss_prim a + gauss a / a"
proof (rule DERIV_nonpos_imp_nonincreasing [OF assms(1)])
  fix x :: real assume "a \<le> x" "x \<le> z"
  with assms have x: "x < 0" by simp
  have "DERIV (\<lambda>t. gauss_prim t + gauss t / t) x
          :> gauss x + (- x * gauss x * x - gauss x * 1) / (x * x)"
    using x by (intro DERIV_add DERIV_prim DERIV_divide DERIV_gauss DERIV_ident) simp
  moreover have "gauss x + (- x * gauss x * x - gauss x * 1) / (x * x) = - gauss x / (x * x)"
    using x by (simp add: field_simps)
  moreover have "- gauss x / (x * x) \<le> 0"
    using gauss_pos [of x] x by (simp add: divide_le_0_iff zero_le_mult_iff)
  ultimately show "\<exists>y. DERIV (\<lambda>t. gauss_prim t + gauss t / t) x :> y \<and> y \<le> 0"
    by auto
qed

lemma mills_lower_bound:
  assumes "z < 0"
  shows "gauss_prim z + gauss z / z \<le> gauss_prim a"
proof (cases "a \<le> z")
  case True
  with assms have "a < 0" by simp
  then have "gauss a / a \<le> 0"
    using gauss_pos [of a] by (simp add: divide_le_0_iff)
  with mills_step [OF True assms] show ?thesis by simp
next
  case False
  then have "gauss_prim z \<le> gauss_prim a" by (intro gauss_prim_mono) simp
  moreover have "gauss z / z \<le> 0"
    using gauss_pos [of z] assms by (simp add: divide_le_0_iff)
  ultimately show ?thesis by simp
qed

lemma mills_Inf:
  assumes "z < 0"
  shows "gauss_prim z + gauss z / z \<le> Inf (range gauss_prim)"
  by (rule cInf_greatest) (auto simp: mills_lower_bound [OF assms])

lemma norm_cdf_nonneg: "0 \<le> norm_cdf x"
proof -
  have "Inf (range gauss_prim) \<le> gauss_prim x"
    by (rule cInf_lower [OF _ bdd_below_gauss_prim]) simp
  then show ?thesis by (simp add: norm_cdf_def)
qed

lemma norm_pdf_pos: "0 < norm_pdf x"
  by (simp add: norm_pdf_def gauss_pos)

lemma z_cdf_pdf_nonneg: "0 \<le> z * norm_cdf z + norm_pdf z"
proof (cases "z < 0")
  case True
  let ?L = "Inf (range gauss_prim)"
  from mills_Inf [OF True] have "gauss_prim z - ?L \<le> - (gauss z / z)" by simp
  then have "z * (- (gauss z / z)) \<le> z * (gauss_prim z - ?L)"
    using True by (intro mult_left_mono_neg) simp_all
  moreover have "z * (- (gauss z / z)) = - gauss z" using True by simp
  ultimately have "0 \<le> z * (gauss_prim z - ?L) + gauss z" by simp
  then have "0 \<le> (z * (gauss_prim z - ?L) + gauss z) / sqrt (2 * pi)"
    by simp
  moreover have "(z * (gauss_prim z - ?L) + gauss z) / sqrt (2 * pi)
                   = z * norm_cdf z + norm_pdf z"
    by (simp add: norm_cdf_def norm_pdf_def gauss_def add_divide_distrib)
  ultimately show ?thesis by simp
next
  case False
  then have "0 \<le> z * norm_cdf z" using norm_cdf_nonneg [of z] by simp
  with norm_pdf_pos [of z] show ?thesis by simp
qed

lemma DERIV_norm_cdf: "DERIV norm_cdf x :> norm_pdf x"
proof -
  have "DERIV (\<lambda>t. (gauss_prim t - Inf (range gauss_prim)) / sqrt (2 * pi)) x
          :> (gauss x - 0) / sqrt (2 * pi)"
    by (intro DERIV_cdivide DERIV_diff DERIV_prim DERIV_const)
  then show ?thesis
    by (simp add: norm_cdf_def [abs_def] norm_pdf_def gauss_def)
qed

lemma norm_cdf_mono: "a \<le> b \<Longrightarrow> norm_cdf a \<le> norm_cdf b"
  by (simp add: norm_cdf_def gauss_prim_mono divide_right_mono)

lemma norm_cdf_vanishes:
  assumes "0 < e"
  shows "\<exists>a. \<forall>x\<le>a. norm_cdf x < e"
proof -
  let ?L = "Inf (range gauss_prim)"
  have "?L < ?L + e * sqrt (2 * pi)" using assms by simp
  then obtain y where "y \<in> range gauss_prim" "y < ?L + e * sqrt (2 * pi)"
    using cInf_lessD [of "range gauss_prim" "?L + e * sqrt (2 * pi)"] by auto
  then obtain a where a: "gauss_prim a < ?L + e * sqrt (2 * pi)" by auto
  then have "(gauss_prim a - ?L) / sqrt (2 * pi) < e"
    by (simp add: pos_divide_less_eq)
  then have "norm_cdf a < e" by (simp add: norm_cdf_def)
  then have "\<forall>x\<le>a. norm_cdf x < e"
    using norm_cdf_mono by (meson le_less_trans)
  then show ?thesis ..
qed

section \<open>Expected improvement is never negative\<close>

text \<open>
  C3. For every best value so far, every predicted mean and every predicted deviation
  that is not negative, the expected improvement is defined and is not negative.
\<close>

theorem EI_nonneg:
  assumes "0 \<le> std"
  shows "\<exists>v. EI best mean std = Some v \<and> 0 \<le> v"
proof (cases "std = 0")
  case True
  then show ?thesis by (simp add: EI_def)
next
  case False
  with assms have pos: "0 < std" by simp
  define z where "z = (best - mean) / std"
  have d: "best - mean = std * z" using pos by (simp add: z_def)
  have "(best - mean) * norm_cdf z + std * norm_pdf z = std * (z * norm_cdf z + norm_pdf z)"
    by (simp add: d algebra_simps)
  moreover have "0 \<le> std * (z * norm_cdf z + norm_pdf z)"
    using pos z_cdf_pdf_nonneg [of z] by (intro mult_nonneg_nonneg) simp_all
  ultimately have "0 \<le> (best - mean) * norm_cdf z + std * norm_pdf z" by simp
  with pos show ?thesis by (simp add: EI_def z_def Let_def)
qed

theorem EI_nonneg_witness:
  "(0::real) \<le> 1 \<and> (\<exists>v. EI 0 2 1 = Some v \<and> 0 \<le> v)"
  using EI_nonneg [of 1 0 2] by simp

end
